theory Spec2Isabelle
  imports Complex_Main "HOL-Library.Multiset"
begin

section \<open>Values, errors and the store\<close>

text \<open>
  Embedding of \<^verbatim>\<open>src/function/statistics/quantileSeq.js\<close>.

  JavaScript values as far as the function inspects them. A native number and the
  numeric content of a BigNumber are idealised as rationals: rounding of IEEE doubles
  and of the decimal library is not modelled, and there is no NaN. \<open>Unit\<close> is a
  dimensioned quantity (magnitude and unit name). \<open>Arr\<close> is an array given by value
  (a nested row of the data, a list of probabilities, a returned list of results).
  \<open>Ref a\<close> is a handle to the caller's collection object whose top-level elements are
  stored at address \<open>a\<close>: the array itself, or the array a Matrix returns from
  \<^verbatim>\<open>valueOf()\<close>.
\<close>

datatype val =
    Num rat
  | Big rat
  | Unit rat string
  | Bool bool
  | Str string
  | Undefined
  | Arr "val list"
  | Ref nat

datatype error =
    SyntaxError string
  | TypeError string
  | RangeError string
  | Error string

text \<open>
  The store: the elements of every array object by address, and the next free address.
  Addresses below \<open>fresh\<close> are allocated.
\<close>

record state =
  arrays :: "nat \<Rightarrow> val list"
  fresh :: nat

type_synonym 'a res = "(error + 'a) \<times> state"

text \<open>
  The factory \<^verbatim>\<open>createQuantileSeq\<close> receives its collaborators as a record of
  dependencies; the model takes the same record as a parameter. Each collaborator may
  throw. \<open>partitionSelect\<close> reorders the array it is given: it returns its outcome and
  the elements of that array afterwards. Of the dispatcher \<^verbatim>\<open>typed\<close> the function
  uses one thing, the treatment of an argument that is of none of the kinds of a
  signature: \<open>typed D x\<close> is the argument after the implicit conversion the dispatcher
  has for it, or the error the dispatcher or its conversion throws.
\<close>

record deps =
  typed :: "val \<Rightarrow> error + val"
  add :: "val \<Rightarrow> val \<Rightarrow> error + val"
  multiply :: "val \<Rightarrow> val \<Rightarrow> error + val"
  partitionSelect :: "val list \<Rightarrow> int \<Rightarrow> (error + val) \<times> val list"
  compare :: "val \<Rightarrow> val \<Rightarrow> error + int"
  isInteger :: "val \<Rightarrow> bool"

section \<open>Helpers of the language and of the imported utilities\<close>

fun isNumber :: "val \<Rightarrow> bool" where
  "isNumber (Num _) = True"
| "isNumber _ = False"

fun isBigNumber :: "val \<Rightarrow> bool" where
  "isBigNumber (Big _) = True"
| "isBigNumber _ = False"

fun isCollection :: "val \<Rightarrow> bool" where
  "isCollection (Arr _) = True"
| "isCollection (Ref _) = True"
| "isCollection _ = False"

text \<open>JavaScript truthiness, for \<^verbatim>\<open>sorted || false\<close>.\<close>

fun truthy :: "val \<Rightarrow> bool" where
  "truthy (Bool b) = b"
| "truthy Undefined = False"
| "truthy (Num r) = (r \<noteq> 0)"
| "truthy (Str t) = (t \<noteq> [])"
| "truthy _ = True"

text \<open>\<^verbatim>\<open>xs[i]\<close>: reading outside the array gives \<^verbatim>\<open>undefined\<close>.\<close>

definition elem_at :: "val list \<Rightarrow> int \<Rightarrow> val" where
  "elem_at xs i = (if 0 \<le> i \<and> i < int (length xs) then xs ! nat i else Undefined)"

text \<open>\<^verbatim>\<open>x % 1\<close>: the remainder has the sign of \<open>x\<close>.\<close>

definition js_mod1 :: "rat \<Rightarrow> rat" where
  "js_mod1 x = (if 0 \<le> x then x - of_int \<lfloor>x\<rfloor> else x - of_int \<lceil>x\<rceil>)"

definition is_int :: "rat \<Rightarrow> bool" where
  "is_int x = (of_int \<lfloor>x\<rfloor> = x)"

text \<open>
  \<^verbatim>\<open>new Array(n)\<close>: \<open>n\<close> empty slots, or a RangeError when \<open>n\<close> is not an integer
  between 0 and \<open>2^32 - 1\<close>.
\<close>

definition new_Array :: "rat \<Rightarrow> error + val list" where
  "new_Array n =
     (if is_int n \<and> 0 \<le> n \<and> n \<le> 4294967295
      then Inr (replicate (nat \<lfloor>n\<rfloor>) Undefined)
      else Inl (RangeError ''Invalid array length''))"

text \<open>
  The private \<^verbatim>\<open>validate\<close> (lines 52-56): a function built by \<^verbatim>\<open>typed\<close> with the
  one signature \<^verbatim>\<open>number | BigNumber | Unit\<close>, returning its argument. An argument of
  one of the three kinds is returned as it is. Any other argument is left to the
  dispatcher: it is returned converted when the dispatcher converts it to one of the three
  kinds (as it does a boolean or a numeric string), and the call throws otherwise. Every
  caller of \<^verbatim>\<open>validate\<close> discards what it returns.
\<close>

definition validate :: "deps \<Rightarrow> val \<Rightarrow> error + val" where
  "validate D x =
     (case x of
        Num r \<Rightarrow> Inr x
      | Big r \<Rightarrow> Inr x
      | Unit r u \<Rightarrow> Inr x
      | _ \<Rightarrow> typed D x)"

text \<open>
  Modelled from the spec: \<^verbatim>\<open>flatten\<close> of \<^verbatim>\<open>utils/array.js\<close> is not part of
  the sources at hand. The spec describes it as the deterministic depth-first,
  left-to-right linearisation of a nested collection, producing an independent linear copy.
\<close>

fun flatten_val :: "val \<Rightarrow> val list" where
  "flatten_val (Arr xs) = concat (map flatten_val xs)"
| "flatten_val v = [v]"

definition flatten_list :: "val list \<Rightarrow> val list" where
  "flatten_list xs = concat (map flatten_val xs)"

text \<open>The top-level elements of a collection value, read from the store for a handle.\<close>

fun elems :: "state \<Rightarrow> val \<Rightarrow> val list" where
  "elems s (Ref a) = arrays s a"
| "elems s (Arr xs) = xs"
| "elems s _ = []"

text \<open>
  Modelled from the spec: \<^verbatim>\<open>flatten\<close> as an operation on the store. The flat copy is
  a new array at the next free address; nothing allocated before is written.
\<close>

definition flatten :: "val \<Rightarrow> state \<Rightarrow> nat \<times> state" where
  "flatten array s =
     (fresh s,
      s\<lparr>arrays := (arrays s)(fresh s := flatten_list (elems s array)),
        fresh := Suc (fresh s)\<rparr>)"

text \<open>
  Modelled from the spec: the constructor of the caller's BigNumber kind, which wraps a
  native number or a BigNumber into a BigNumber and rejects every other argument.
\<close>

fun new_BigNumber :: "val \<Rightarrow> error + val" where
  "new_BigNumber (Num r) = Inr (Big r)"
| "new_BigNumber (Big r) = Inr (Big r)"
| "new_BigNumber _ = Inl (Error ''[DecimalError] Invalid argument'')"

section \<open>The scalar quantile calculator\<close>

text \<open>
  \<^verbatim>\<open>partitionSelect(flat, k)\<close> on the array at address \<open>x\<close>: the collaborator's
  reordering is written back to that address and to no other.
\<close>

definition partitionSelect_at :: "deps \<Rightarrow> nat \<Rightarrow> int \<Rightarrow> state \<Rightarrow> val res" where
  "partitionSelect_at D x k s =
     (case partitionSelect D (arrays s x) k of
        (r, ys) \<Rightarrow> (r, s\<lparr>arrays := (arrays s)(x := ys)\<rparr>))"

text \<open>
  The loop \<^verbatim>\<open>for (let i = 0; i < integerPart; ++i) if (compare(flat[i], left) > 0) left = flat[i]\<close>.
\<close>

function scan_left :: "deps \<Rightarrow> val list \<Rightarrow> int \<Rightarrow> int \<Rightarrow> val \<Rightarrow> error + val" where
  "scan_left D flat i integerPart left =
     (if i < integerPart then
        (case compare D (elem_at flat i) left of
           Inl e \<Rightarrow> Inl e
         | Inr c \<Rightarrow> scan_left D flat (i + 1) integerPart (if c > 0 then elem_at flat i else left))
      else Inr left)"
  by pat_completeness auto
termination
  by (relation "measure (\<lambda>(D, flat, i, integerPart, left). nat (integerPart - i))") auto

text \<open>
  The exact-rank return, written twice in the source (lines 195-199 and 232-236):
  \<^verbatim>\<open>const value = sorted ? flat[index] : partitionSelect(flat, index); validate(value); return value\<close>.
\<close>

definition exact_rank :: "deps \<Rightarrow> bool \<Rightarrow> nat \<Rightarrow> int \<Rightarrow> state \<Rightarrow> val res" where
  "exact_rank D sortedFlag flat index s =
     (case (if sortedFlag then (Inr (elem_at (arrays s flat) index), s)
            else partitionSelect_at D flat index s) of
        (Inl e, s') \<Rightarrow> (Inl e, s')
      | (Inr v, s') \<Rightarrow>
          (case validate D v of Inl e \<Rightarrow> (Inl e, s') | Inr _ \<Rightarrow> (Inr v, s')))"

text \<open>
  The two endpoints \<open>(left, right)\<close>, written twice in the source (lines 204-219 and
  243-258).
\<close>

definition endpoints :: "deps \<Rightarrow> bool \<Rightarrow> nat \<Rightarrow> int \<Rightarrow> state \<Rightarrow> (val \<times> val) res" where
  "endpoints D sortedFlag flat integerPart s =
     (if sortedFlag then
        (Inr (elem_at (arrays s flat) integerPart, elem_at (arrays s flat) (integerPart + 1)), s)
      else
        (case partitionSelect_at D flat (integerPart + 1) s of
           (Inl e, s') \<Rightarrow> (Inl e, s')
         | (Inr right, s') \<Rightarrow>
             (case scan_left D (arrays s' flat) 0 integerPart (elem_at (arrays s' flat) integerPart) of
                Inl e \<Rightarrow> (Inl e, s')
              | Inr left \<Rightarrow> (Inr (left, right), s'))))"

text \<open>
  The interpolated return (lines 221-225 and 260-265): both endpoints are validated, then
  \<^verbatim>\<open>add(multiply(left, 1 - fracPart), multiply(right, fracPart))\<close>, whose arguments are
  evaluated from left to right, the first collaborator that throws ending the evaluation.
  The two weights are native numbers in the first copy and BigNumbers in the second.
\<close>

definition interpolate :: "deps \<Rightarrow> bool \<Rightarrow> nat \<Rightarrow> int \<Rightarrow> val \<Rightarrow> val \<Rightarrow> state \<Rightarrow> val res" where
  "interpolate D sortedFlag flat integerPart w_left w_right s =
     (case endpoints D sortedFlag flat integerPart s of
        (Inl e, s') \<Rightarrow> (Inl e, s')
      | (Inr (left, right), s') \<Rightarrow>
          (case validate D left of Inl e \<Rightarrow> (Inl e, s') | Inr _ \<Rightarrow>
          (case validate D right of Inl e \<Rightarrow> (Inl e, s') | Inr _ \<Rightarrow>
          (case multiply D left w_left of Inl e \<Rightarrow> (Inl e, s') | Inr a \<Rightarrow>
          (case multiply D right w_right of Inl e \<Rightarrow> (Inl e, s') | Inr b \<Rightarrow>
             (add D a b, s'))))))"

text \<open>
  \<^verbatim>\<open>_quantileSeq(array, prob, sorted)\<close>. It is private and only called with a
  probability that is a number or a BigNumber; any other value has no \<^verbatim>\<open>times\<close> method.
\<close>

definition priv_quantileSeq :: "deps \<Rightarrow> val \<Rightarrow> val \<Rightarrow> bool \<Rightarrow> state \<Rightarrow> val res" where
  "priv_quantileSeq D array prob sortedFlag s =
     (case flatten array s of (flat, s1) \<Rightarrow>
        let len = length (arrays s1 flat) in
        if len = 0 then (Inl (Error ''Cannot calculate quantile of an empty sequence''), s1)
        else
          (case prob of
             Num p \<Rightarrow>
               let index = p * of_nat (len - 1); fracPart = js_mod1 index in
               if fracPart = 0 then exact_rank D sortedFlag flat \<lfloor>index\<rfloor> s1
               else
                 let integerPart = \<lfloor>index\<rfloor> in
                 interpolate D sortedFlag flat integerPart (Num (1 - fracPart)) (Num fracPart) s1
           | Big p \<Rightarrow>
               let index = p * of_nat (len - 1) in
               if is_int index then exact_rank D sortedFlag flat \<lfloor>index\<rfloor> s1
               else
                 let integerPart = \<lfloor>index\<rfloor>; fracPart = index - of_int integerPart in
                 interpolate D sortedFlag flat integerPart (Big (1 - fracPart)) (Big fracPart) s1
           | _ \<Rightarrow> (Inl (TypeError ''prob.times is not a function''), s1)))"

section \<open>The dispatcher\<close>

text \<open>
  The three loops of \<^verbatim>\<open>quantileSeq\<close> have one shape:
  \<^verbatim>\<open>for (let i = 0; i < n; ++i) probArr[i] = body(i)\<close>, where the body may throw.
\<close>

function fill :: "(nat \<Rightarrow> state \<Rightarrow> val res) \<Rightarrow> rat \<Rightarrow> nat \<Rightarrow> val list \<Rightarrow> state \<Rightarrow> val res" where
  "fill body n i probArr s =
     (if of_nat i < n then
        (case body i s of
           (Inl e, s') \<Rightarrow> (Inl e, s')
         | (Inr v, s') \<Rightarrow> fill body n (Suc i) (probArr[i := v]) s')
      else (Inr (Arr probArr), s))"
  by pat_completeness auto
termination
proof (relation "measure (\<lambda>(body, n, i, probArr, s). nat \<lceil>n\<rceil> - i)")
  show "wf (measure (\<lambda>(body, n, i, probArr, s). nat \<lceil>n :: rat\<rceil> - i))"
    by simp
next
  fix body :: "nat \<Rightarrow> state \<Rightarrow> val res" and n :: rat and i :: nat
    and probArr :: "val list" and s x2 :: state and x y
  assume "of_nat i < n"
  then have "int i < \<lceil>n\<rceil>"
    by (simp add: less_ceiling_iff)
  then show "((body, n, Suc i, probArr[i := y], x2), body, n, i, probArr, s)
      \<in> measure (\<lambda>(body, n, i, probArr, s). nat \<lceil>n\<rceil> - i)"
    by simp
qed

text \<open>The body of the loop over a list of probabilities (lines 147-161).\<close>

definition list_body :: "deps \<Rightarrow> val \<Rightarrow> val \<Rightarrow> bool \<Rightarrow> nat \<Rightarrow> state \<Rightarrow> val res" where
  "list_body D dataArr probOrN sortedFlag i s =
     (let currProb = elem_at (elems s probOrN) (int i) in
      case currProb of
        Num p \<Rightarrow>
          if p < 0 \<or> p > 1
          then (Inl (Error ''Probability must be between 0 and 1, inclusive''), s)
          else priv_quantileSeq D dataArr currProb sortedFlag s
      | Big p \<Rightarrow>
          if p < 0 \<or> p > 1
          then (Inl (Error ''Probability must be between 0 and 1, inclusive''), s)
          else priv_quantileSeq D dataArr currProb sortedFlag s
      | _ \<Rightarrow> (Inl (TypeError ''Unexpected type of argument in function quantileSeq''), s))"

text \<open>\<^verbatim>\<open>new BigNumber(_quantileSeq(dataArr, prob, sorted))\<close>.\<close>

definition wrapped_quantileSeq :: "deps \<Rightarrow> val \<Rightarrow> val \<Rightarrow> bool \<Rightarrow> state \<Rightarrow> val res" where
  "wrapped_quantileSeq D dataArr prob sortedFlag s =
     (case priv_quantileSeq D dataArr prob sortedFlag s of
        (Inl e, s') \<Rightarrow> (Inl e, s')
      | (Inr v, s') \<Rightarrow> (new_BigNumber v, s'))"

text \<open>
  The branches of \<^verbatim>\<open>quantileSeq\<close> on the kind of \<^verbatim>\<open>probOrN\<close> (lines 80-166), entered
  once the data is a collection and \<^verbatim>\<open>sorted\<close> is a boolean. In the list branch
  \<^verbatim>\<open>new Array(probOrNArr.length)\<close> cannot fail: the length of an array is a valid
  array length.
\<close>

definition by_probOrN :: "deps \<Rightarrow> val \<Rightarrow> val \<Rightarrow> bool \<Rightarrow> state \<Rightarrow> val res" where
  "by_probOrN D dataArr probOrN sortedFlag s =
     (case probOrN of
        Num n \<Rightarrow>
          if n < 0 then (Inl (Error ''N/prob must be non-negative''), s)
          else if n \<le> 1 then priv_quantileSeq D dataArr probOrN sortedFlag s
          else if \<not> isInteger D probOrN then (Inl (Error ''N must be a positive integer''), s)
          else
            (let nPlusOne = n + 1 in
             case new_Array n of
               Inl e \<Rightarrow> (Inl e, s)
             | Inr probArr \<Rightarrow>
                 fill (\<lambda>i. priv_quantileSeq D dataArr (Num (of_nat (Suc i) / nPlusOne)) sortedFlag)
                   n 0 probArr s)
      | Big n \<Rightarrow>
          if n < 0 then (Inl (Error ''N/prob must be non-negative''), s)
          else if n \<le> 1 then wrapped_quantileSeq D dataArr probOrN sortedFlag s
          else if \<not> is_int n then (Inl (Error ''N must be a positive integer''), s)
          else
            (let intN = n in
             if intN > 4294967295
             then (Inl (Error ''N must be less than or equal to 2^32-1, as that is the maximum length of an Array''), s)
             else
               (let nPlusOne = intN + 1 in
                case new_Array intN of
                  Inl e \<Rightarrow> (Inl e, s)
                | Inr probArr \<Rightarrow>
                    fill (\<lambda>i. wrapped_quantileSeq D dataArr (Big (of_nat (Suc i) / nPlusOne)) sortedFlag)
                      intN 0 probArr s))
      | Arr ps \<Rightarrow>
          (let probArr = replicate (length (elems s probOrN)) Undefined in
           fill (list_body D dataArr probOrN sortedFlag) (of_nat (length probArr)) 0 probArr s)
      | Ref a \<Rightarrow>
          (let probArr = replicate (length (elems s probOrN)) Undefined in
           fill (list_body D dataArr probOrN sortedFlag) (of_nat (length probArr)) 0 probArr s)
      | _ \<Rightarrow> (Inl (TypeError ''Unexpected type of argument in function quantileSeq''), s))"

text \<open>
  \<^verbatim>\<open>quantileSeq(data, probOrN, sorted)\<close> on its \<^verbatim>\<open>arguments\<close>. The typed signatures
  call it with \<^verbatim>\<open>false\<close> as the third argument, or with the caller's boolean. The
  signatures with a dimension go through \<^verbatim>\<open>apply\<close>, which is not part of the sources
  at hand, and are not modelled.
\<close>

definition quantileSeq :: "deps \<Rightarrow> val list \<Rightarrow> state \<Rightarrow> val res" where
  "quantileSeq D arguments s =
     (if length arguments < 2 \<or> length arguments > 3
      then (Inl (SyntaxError ''Function quantileSeq requires two or three parameters''), s)
      else
        (let data = arguments ! 0;
             probOrN = arguments ! 1;
             sorted0 = (if length arguments = 3 then arguments ! 2 else Undefined)
         in
         if isCollection data then
           (case (if truthy sorted0 then sorted0 else Bool False) of
              Bool sortedFlag \<Rightarrow> by_probOrN D data probOrN sortedFlag s
            | _ \<Rightarrow> (Inl (TypeError ''Unexpected type of argument in function quantileSeq''), s))
         else (Inl (TypeError ''Unexpected type of argument in function quantileSeq''), s)))"

section \<open>Reference collaborators\<close>

text \<open>
  Modelled from the spec: the collaborators are not part of the sources at hand. The spec
  gives their interface: \<^verbatim>\<open>add\<close>, \<^verbatim>\<open>multiply\<close> and \<^verbatim>\<open>compare\<close> are the
  arithmetic and the order of the numeric representation in play, \<^verbatim>\<open>isInteger\<close> is the
  exactness test, and \<^verbatim>\<open>select(sequence, rank)\<close> returns the element at sorted position
  \<open>rank\<close>, defined only for \<open>0 \<le> rank < length\<close>, leaving the sequence partitioned
  around it. The instance below works on magnitudes and selects by sorting; it is the
  concrete instance at which the general theorems are evaluated.
\<close>

text \<open>
  The dispatcher of the instance, on an argument that is no number, BigNumber or Unit:
  a boolean is converted to the number 0 or 1; a string is converted to the number it
  denotes, and the conversion throws an Error when it denotes none; for any other
  argument the dispatcher throws its TypeError, for whose text a fixed text stands.
  Of the numerals of JavaScript the instance reads the decimal integers with an optional
  minus sign, and the empty string as 0.
\<close>

definition digit_of :: "char \<Rightarrow> nat option" where
  "digit_of c =
     (let n = (of_char c :: nat) in if 48 \<le> n \<and> n \<le> 57 then Some (n - 48) else None)"

fun digits_value :: "string \<Rightarrow> nat \<Rightarrow> nat option" where
  "digits_value [] acc = Some acc"
| "digits_value (c # cs) acc =
     (case digit_of c of None \<Rightarrow> None | Some d \<Rightarrow> digits_value cs (10 * acc + d))"

definition string_to_number :: "string \<Rightarrow> rat option" where
  "string_to_number t =
     (case t of
        [] \<Rightarrow> Some 0
      | c # cs \<Rightarrow>
          if c = CHR ''-'' \<and> cs \<noteq> []
          then map_option (\<lambda>n. - of_nat n) (digits_value cs 0)
          else map_option of_nat (digits_value t 0))"

fun std_typed :: "val \<Rightarrow> error + val" where
  "std_typed (Bool b) = Inr (Num (if b then 1 else 0))"
| "std_typed (Str t) =
     (case string_to_number t of
        Some r \<Rightarrow> Inr (Num r)
      | None \<Rightarrow> Inl (Error (''Cannot convert '' @ [CHR 0x22] @ t @ [CHR 0x22] @ '' to a number'')))"
| "std_typed _ = Inl (TypeError ''Unexpected type of argument in function validate'')"

fun magnitude :: "val \<Rightarrow> rat" where
  "magnitude (Num r) = r"
| "magnitude (Big r) = r"
| "magnitude (Unit r u) = r"
| "magnitude _ = 0"

fun std_add :: "val \<Rightarrow> val \<Rightarrow> error + val" where
  "std_add (Num a) (Num b) = Inr (Num (a + b))"
| "std_add (Big a) (Big b) = Inr (Big (a + b))"
| "std_add (Num a) (Big b) = Inr (Big (a + b))"
| "std_add (Big a) (Num b) = Inr (Big (a + b))"
| "std_add (Unit a u) (Unit b v) =
     (if u = v then Inr (Unit (a + b) u) else Inl (Error ''Units do not match''))"
| "std_add _ _ = Inl (TypeError ''Unexpected type of argument in function add'')"

fun std_multiply :: "val \<Rightarrow> val \<Rightarrow> error + val" where
  "std_multiply (Num a) (Num b) = Inr (Num (a * b))"
| "std_multiply (Big a) (Big b) = Inr (Big (a * b))"
| "std_multiply (Num a) (Big b) = Inr (Big (a * b))"
| "std_multiply (Big a) (Num b) = Inr (Big (a * b))"
| "std_multiply (Unit a u) (Num b) = Inr (Unit (a * b) u)"
| "std_multiply (Unit a u) (Big b) = Inr (Unit (a * b) u)"
| "std_multiply _ _ = Inl (TypeError ''Unexpected type of argument in function multiply'')"

definition std_compare :: "val \<Rightarrow> val \<Rightarrow> error + int" where
  "std_compare a b =
     Inr (if magnitude a < magnitude b then - 1 else if magnitude b < magnitude a then 1 else 0)"

definition std_partitionSelect :: "val list \<Rightarrow> int \<Rightarrow> (error + val) \<times> val list" where
  "std_partitionSelect xs k =
     (if 0 \<le> k \<and> k < int (length xs)
      then (Inr (sort_key magnitude xs ! nat k), sort_key magnitude xs)
      else (Inl (Error ''k out of bounds''), xs))"

fun std_isInteger :: "val \<Rightarrow> bool" where
  "std_isInteger (Num r) = is_int r"
| "std_isInteger (Big r) = is_int r"
| "std_isInteger _ = False"

definition std :: deps where
  "std = \<lparr>typed = std_typed, add = std_add, multiply = std_multiply,
           partitionSelect = std_partitionSelect, compare = std_compare,
           isInteger = std_isInteger\<rparr>"

text \<open>
  The same instance with an \<^verbatim>\<open>add\<close> and a \<^verbatim>\<open>multiply\<close> that compute nothing: each
  returns a record of the call it received.
\<close>

definition traced :: deps where
  "traced = std\<lparr>add := (\<lambda>a b. Inr (Arr [Str ''add'', a, b])),
                 multiply := (\<lambda>a b. Inr (Arr [Str ''multiply'', a, b]))\<rparr>"

text \<open>A store holding the array \<open>xs\<close> at address 0.\<close>

definition store0 :: "val list \<Rightarrow> state" where
  "store0 xs = \<lparr>arrays = (\<lambda>a. if a = 0 then xs else []), fresh = 1\<rparr>"

section \<open>Auxiliary notions\<close>

subsection \<open>The store\<close>

text \<open>\<open>only_at x s s'\<close>: from \<open>s\<close> to \<open>s'\<close> nothing but the array at \<open>x\<close> has changed.\<close>

definition only_at :: "nat \<Rightarrow> state \<Rightarrow> state \<Rightarrow> bool" where
  "only_at x s s' \<longleftrightarrow> fresh s' = fresh s \<and> (\<forall>a. a \<noteq> x \<longrightarrow> arrays s' a = arrays s a)"

text \<open>
  \<open>grows s s'\<close>: from \<open>s\<close> to \<open>s'\<close> arrays may have been allocated, and every array
  allocated in \<open>s\<close> is as it was.
\<close>

definition grows :: "state \<Rightarrow> state \<Rightarrow> bool" where
  "grows s s' \<longleftrightarrow> fresh s \<le> fresh s' \<and> (\<forall>a < fresh s. arrays s' a = arrays s a)"

text \<open>A collection value whose handle, if it is one, points to an allocated array.\<close>

fun allocated :: "state \<Rightarrow> val \<Rightarrow> bool" where
  "allocated s (Ref a) = (a < fresh s)"
| "allocated s _ = True"

subsection \<open>The result of the scalar calculator as a function of the flat sequence\<close>

text \<open>
  What \<^const>\<open>exact_rank\<close>, \<^const>\<open>endpoints\<close>, \<^const>\<open>interpolate\<close> and
  \<^const>\<open>priv_quantileSeq\<close> return, read off the elements of the flat copy alone. The
  lemmas \<open>exact_rank_fst\<close>, \<open>endpoints_fst\<close>, \<open>interpolate_fst\<close> and \<open>priv_fst\<close> below
  prove that they are the first components of the store-passing functions.
\<close>

definition exact_value :: "deps \<Rightarrow> bool \<Rightarrow> val list \<Rightarrow> int \<Rightarrow> error + val" where
  "exact_value D sortedFlag xs index =
     (case (if sortedFlag then Inr (elem_at xs index) else fst (partitionSelect D xs index)) of
        Inl e \<Rightarrow> Inl e
      | Inr v \<Rightarrow> (case validate D v of Inl e \<Rightarrow> Inl e | Inr _ \<Rightarrow> Inr v))"

definition endpoints_value :: "deps \<Rightarrow> bool \<Rightarrow> val list \<Rightarrow> int \<Rightarrow> error + val \<times> val" where
  "endpoints_value D sortedFlag xs integerPart =
     (if sortedFlag then Inr (elem_at xs integerPart, elem_at xs (integerPart + 1))
      else
        (case partitionSelect D xs (integerPart + 1) of
           (Inl e, ys) \<Rightarrow> Inl e
         | (Inr right, ys) \<Rightarrow>
             (case scan_left D ys 0 integerPart (elem_at ys integerPart) of
                Inl e \<Rightarrow> Inl e
              | Inr left \<Rightarrow> Inr (left, right))))"

definition interpolate_value :: "deps \<Rightarrow> bool \<Rightarrow> val list \<Rightarrow> int \<Rightarrow> val \<Rightarrow> val \<Rightarrow> error + val" where
  "interpolate_value D sortedFlag xs integerPart w_left w_right =
     (case endpoints_value D sortedFlag xs integerPart of
        Inl e \<Rightarrow> Inl e
      | Inr (left, right) \<Rightarrow>
          (case validate D left of Inl e \<Rightarrow> Inl e | Inr _ \<Rightarrow>
          (case validate D right of Inl e \<Rightarrow> Inl e | Inr _ \<Rightarrow>
          (case multiply D left w_left of Inl e \<Rightarrow> Inl e | Inr a \<Rightarrow>
          (case multiply D right w_right of Inl e \<Rightarrow> Inl e | Inr b \<Rightarrow>
             add D a b)))))"

definition quantile_value :: "deps \<Rightarrow> val list \<Rightarrow> val \<Rightarrow> bool \<Rightarrow> error + val" where
  "quantile_value D xs prob sortedFlag =
     (if xs = [] then Inl (Error ''Cannot calculate quantile of an empty sequence'')
      else
        (case prob of
           Num p \<Rightarrow>
             (let index = p * of_nat (length xs - 1) in
              if js_mod1 index = 0 then exact_value D sortedFlag xs \<lfloor>index\<rfloor>
              else interpolate_value D sortedFlag xs \<lfloor>index\<rfloor>
                     (Num (1 - js_mod1 index)) (Num (js_mod1 index)))
         | Big p \<Rightarrow>
             (let index = p * of_nat (length xs - 1) in
              if is_int index then exact_value D sortedFlag xs \<lfloor>index\<rfloor>
              else interpolate_value D sortedFlag xs \<lfloor>index\<rfloor>
                     (Big (1 - (index - of_int \<lfloor>index\<rfloor>))) (Big (index - of_int \<lfloor>index\<rfloor>)))
         | _ \<Rightarrow> Inl (TypeError ''prob.times is not a function'')))"


subsection \<open>Results of a loop\<close>

text \<open>
  The outcome of computing a list of results one after the other: the first error, or
  all the values in order.
\<close>

fun results_in_order :: "(error + val) list \<Rightarrow> error + val list" where
  "results_in_order [] = Inr []"
| "results_in_order (Inl e # rs) = Inl e"
| "results_in_order (Inr v # rs) =
     (case results_in_order rs of Inl e \<Rightarrow> Inl e | Inr vs \<Rightarrow> Inr (v # vs))"

definition as_array :: "error + val list \<Rightarrow> error + val" where
  "as_array r = (case r of Inl e \<Rightarrow> Inl e | Inr vs \<Rightarrow> Inr (Arr vs))"

subsection \<open>Kinds of values and of probabilities\<close>

text \<open>The kinds of the signature of \<^const>\<open>validate\<close>.\<close>

fun supported :: "val \<Rightarrow> bool" where
  "supported (Num _) = True"
| "supported (Big _) = True"
| "supported (Unit _ _) = True"
| "supported _ = False"

text \<open>
  An element of a probability list that passes the checks of lines 148-159, and the error
  raised for one that does not.
\<close>

fun valid_prob :: "val \<Rightarrow> bool" where
  "valid_prob (Num p) = (0 \<le> p \<and> p \<le> 1)"
| "valid_prob (Big p) = (0 \<le> p \<and> p \<le> 1)"
| "valid_prob _ = False"

fun prob_error :: "val \<Rightarrow> error" where
  "prob_error (Num _) = Error ''Probability must be between 0 and 1, inclusive''"
| "prob_error (Big _) = Error ''Probability must be between 0 and 1, inclusive''"
| "prob_error _ = TypeError ''Unexpected type of argument in function quantileSeq''"

text \<open>The outcome of one iteration of the loop over a probability list.\<close>

definition list_entry :: "deps \<Rightarrow> val list \<Rightarrow> bool \<Rightarrow> val \<Rightarrow> error + val" where
  "list_entry D xs b p =
     (if valid_prob p then quantile_value D xs p b else Inl (prob_error p))"

subsection \<open>Contracts of the collaborators\<close>

text \<open>
  Modelled from the spec: the selection primitive \<^verbatim>\<open>partitionSelect\<close> is not part of
  the sources at hand. The spec gives its contract: it returns the value that would
  occupy position \<open>k\<close> if the sequence were sorted ascending, and leaves the sequence
  reordered so that all elements left of \<open>k\<close> are at most it and all elements right of
  \<open>k\<close> are at least it; it is defined only for \<open>0 \<le> k < length\<close>. The order is that of
  a magnitude \<open>key\<close> of the values. \<open>selects D key xs k\<close> says that the collaborator of
  \<open>D\<close> meets this contract on the sequence \<open>xs\<close> at rank \<open>k\<close>.
\<close>

definition partitioned_at :: "(val \<Rightarrow> rat) \<Rightarrow> val list \<Rightarrow> nat \<Rightarrow> bool" where
  "partitioned_at key ys k \<longleftrightarrow>
     k < length ys
     \<and> (\<forall>x\<in>set (take k ys). key x \<le> key (ys ! k))
     \<and> (\<forall>x\<in>set (drop (Suc k) ys). key (ys ! k) \<le> key x)"

definition selects :: "deps \<Rightarrow> (val \<Rightarrow> rat) \<Rightarrow> val list \<Rightarrow> nat \<Rightarrow> bool" where
  "selects D key xs k \<longleftrightarrow>
     (case partitionSelect D xs (int k) of
        (Inr v, ys) \<Rightarrow> mset ys = mset xs \<and> v = ys ! k \<and> partitioned_at key ys k
      | (Inl e, ys) \<Rightarrow> False)"


section \<open>Basic lemmas\<close>

declare scan_left.simps [simp del] fill.simps [simp del]

subsection \<open>Validation and numbers\<close>

lemma validate_supported: "supported v \<Longrightarrow> validate D v = Inr v"
  by (cases v) (auto simp: validate_def)

lemma new_BigNumber_Inr: "new_BigNumber v = Inr w \<Longrightarrow> isBigNumber w"
  by (cases v) auto

lemma js_mod1_zero_iff: "js_mod1 x = 0 \<longleftrightarrow> is_int x"
proof -
  have "x = of_int \<lceil>x\<rceil> \<longleftrightarrow> x = of_int \<lfloor>x\<rfloor>"
    by (metis floor_of_int ceiling_of_int)
  then show ?thesis
    by (auto simp: js_mod1_def is_int_def)
qed


lemma is_int_of_nat: "is_int n \<Longrightarrow> 0 \<le> n \<Longrightarrow> of_nat (nat \<lfloor>n\<rfloor>) = n"
  by (simp add: is_int_def)

subsection \<open>The store is only extended\<close>

text \<open>
  The scalar calculator writes the flat copy and nothing else; a loop whose body only
  extends the store only extends it.
\<close>

lemma only_at_refl: "only_at x s s"
  by (simp add: only_at_def)

lemma partitionSelect_at_only: "only_at x s (snd (partitionSelect_at D x k s))"
  by (simp add: partitionSelect_at_def only_at_def split: prod.splits)

lemma exact_rank_only: "only_at x s (snd (exact_rank D b x k s))"
  using partitionSelect_at_only[of x s D k]
  by (auto simp: exact_rank_def only_at_refl split: prod.splits sum.splits)

lemma endpoints_only: "only_at x s (snd (endpoints D b x k s))"
  using partitionSelect_at_only[of x s D "k + 1"]
  by (auto simp: endpoints_def only_at_refl split: prod.splits sum.splits)

lemma interpolate_only: "only_at x s (snd (interpolate D b x k wl wr s))"
  using endpoints_only[of x s D b k]
  by (auto simp: interpolate_def split: prod.splits sum.splits)

lemma grows_refl: "grows s s"
  by (simp add: grows_def)

lemma grows_trans: "grows s s' \<Longrightarrow> grows s' s'' \<Longrightarrow> grows s s''"
  by (auto simp: grows_def)

lemma grows_elems: "grows s s' \<Longrightarrow> allocated s S \<Longrightarrow> elems s' S = elems s S"
  by (cases S) (auto simp: grows_def)

lemma priv_grows: "grows s (snd (priv_quantileSeq D S prob b s))"
proof -
  define s1 where "s1 = snd (flatten S s)"
  have g: "grows s s1"
    by (simp add: s1_def flatten_def grows_def)
  have step: "only_at (fresh s) s1 s' \<Longrightarrow> grows s s'" for s'
    using g by (auto simp: only_at_def grows_def)
  have f: "flatten S s = (fresh s, s1)"
    by (simp add: s1_def flatten_def)
  show ?thesis
    unfolding priv_quantileSeq_def f
    by (auto simp: Let_def g intro!: step exact_rank_only interpolate_only split: val.splits)
qed

lemma wrapped_grows: "grows s (snd (wrapped_quantileSeq D S prob b s))"
  using priv_grows[of s D S prob b]
  by (auto simp: wrapped_quantileSeq_def split: prod.splits sum.splits)

lemma list_body_grows: "grows s (snd (list_body D S ps b i s))"
  by (auto simp: list_body_def Let_def grows_refl priv_grows split: val.splits)

lemma fill_grows:
  assumes "\<And>j s'. grows s' (snd (body j s'))"
  shows "grows s (snd (fill body n i arr s))"
  using assms
proof (induction body n i arr s rule: fill.induct)
  case (1 body n i probArr s)
  show ?case
  proof (cases "of_nat i < n")
    case False
    then show ?thesis
      by (simp add: fill.simps[of body n i] grows_refl)
  next
    case True
    obtain r s' where b: "body i s = (r, s')"
      by (cases "body i s")
    have "grows s (snd (body i s))"
      by (rule "1.prems")
    then have g: "grows s s'"
      unfolding b by simp
    show ?thesis
    proof (cases r)
      case (Inl e)
      then show ?thesis
        using True b g by (simp add: fill.simps[of body n i])
    next
      case (Inr v)
      have "grows s' (snd (fill body n (Suc i) (probArr[i := v]) s'))"
        using 1 True b Inr by simp
      then show ?thesis
        using True b Inr g by (simp add: fill.simps[of body n i] grows_trans)
    qed
  qed
qed

lemma by_probOrN_grows: "grows s (snd (by_probOrN D S probOrN b s))"
  by (auto simp: by_probOrN_def Let_def grows_refl priv_grows wrapped_grows
      intro!: fill_grows list_body_grows split: val.splits sum.splits)

lemma quantileSeq_grows: "grows s (snd (quantileSeq D arguments s))"
  by (auto simp: quantileSeq_def Let_def grows_refl by_probOrN_grows split: val.splits)

subsection \<open>The result of the scalar calculator\<close>

text \<open>
  The result depends on the store only through the flat sequence of the data.
\<close>

lemma exact_rank_fst: "fst (exact_rank D b x k s) = exact_value D b (arrays s x) k"
  by (auto simp: exact_rank_def exact_value_def partitionSelect_at_def
      split: prod.splits sum.splits)

lemma endpoints_fst: "fst (endpoints D b x k s) = endpoints_value D b (arrays s x) k"
  by (auto simp: endpoints_def endpoints_value_def partitionSelect_at_def
      split: prod.splits sum.splits)

lemma interpolate_fst:
  "fst (interpolate D b x k wl wr s) = interpolate_value D b (arrays s x) k wl wr"
  using endpoints_fst[of D b x k s]
  by (auto simp: interpolate_def interpolate_value_def split: prod.splits sum.splits)

lemma priv_fst:
  "fst (priv_quantileSeq D S prob b s) = quantile_value D (flatten_list (elems s S)) prob b"
  by (auto simp: priv_quantileSeq_def quantile_value_def flatten_def Let_def
      exact_rank_fst interpolate_fst split: val.splits)

lemma priv_fst_grows:
  "grows s s' \<Longrightarrow> allocated s S \<Longrightarrow>
     fst (priv_quantileSeq D S prob b s') = fst (priv_quantileSeq D S prob b s)"
  by (simp add: priv_fst grows_elems)

lemma wrapped_Inr: "fst (wrapped_quantileSeq D S prob b s) = Inr w \<Longrightarrow> isBigNumber w"
  by (auto simp: wrapped_quantileSeq_def split: prod.splits sum.splits dest: new_BigNumber_Inr)

lemma quantile_value_exact:
  assumes "prob = Num p \<or> prob = Big p" and "xs \<noteq> []"
    and "is_int (p * of_nat (length xs - 1))"
  shows "quantile_value D xs prob b = exact_value D b xs \<lfloor>p * of_nat (length xs - 1)\<rfloor>"
  using assms by (auto simp: quantile_value_def js_mod1_zero_iff)


subsection \<open>The loops\<close>

text \<open>
  A loop whose body has a result that does not depend on the store returns the results
  in order, or the first error.
\<close>

lemma results_in_order_Inr:
  "results_in_order rs = Inr vs \<Longrightarrow>
     length vs = length rs \<and> (\<forall>i<length rs. rs ! i = Inr (vs ! i))"
proof (induction rs arbitrary: vs)
  case Nil
  then show ?case by simp
next
  case (Cons r rs)
  show ?case
  proof (cases r)
    case (Inl e)
    then show ?thesis using Cons.prems by simp
  next
    case (Inr v)
    then obtain ws where ws: "results_in_order rs = Inr ws" and vs: "vs = v # ws"
      using Cons.prems by (auto split: sum.splits)
    show ?thesis
      using Cons.IH[OF ws] Inr vs by (auto simp: nth_Cons split: nat.splits)
  qed
qed

lemma results_in_order_append_Inl:
  "results_in_order (rs @ Inl e # rest) =
     (case results_in_order rs of Inl e' \<Rightarrow> Inl e' | Inr _ \<Rightarrow> Inl e)"
proof (induction rs)
  case Nil
  then show ?case by simp
next
  case (Cons r rs)
  then show ?case by (cases r) (auto split: sum.splits)
qed

lemma as_array_Inr: "as_array r = Inr (Arr vs) \<longleftrightarrow> r = Inr vs"
  by (auto simp: as_array_def split: sum.splits)

lemma as_array_collect:
  "(case r of Inl e \<Rightarrow> Inl e | Inr ws \<Rightarrow> Inr (Arr (take 0 arr @ ws))) = as_array r"
  by (simp add: as_array_def split: sum.splits)

lemma fill_collect:
  assumes inv: "\<And>j s'. I s' \<Longrightarrow> I (snd (body j s'))"
    and res: "\<And>j s'. j < m \<Longrightarrow> I s' \<Longrightarrow> fst (body j s') = r j"
  shows "I s \<Longrightarrow> length arr = m \<Longrightarrow> i \<le> m \<Longrightarrow>
    fst (fill body (of_nat m) i arr s) =
      (case results_in_order (map r [i..<m]) of
         Inl e \<Rightarrow> Inl e
       | Inr ws \<Rightarrow> Inr (Arr (take i arr @ ws)))"
proof (induction "m - i" arbitrary: i arr s)
  case 0
  then show ?case
    by (simp add: fill.simps[of body _ i])
next
  case (Suc k)
  then have lt: "i < m"
    by simp
  obtain x s' where b: "body i s = (x, s')"
    by (cases "body i s")
  have x: "x = r i"
    using res[OF lt Suc.prems(1)] b by simp
  have I': "I s'"
    using inv[OF Suc.prems(1), of i] b by simp
  have upt: "[i..<m] = i # [Suc i..<m]"
    using lt by (simp add: upt_conv_Cons)
  show ?case
  proof (cases x)
    case (Inl e)
    then have "r i = Inl e"
      using x by simp
    then show ?thesis
      using lt b Inl by (simp add: fill.simps[of body _ i] upt)
  next
    case (Inr v)
    have k: "k = m - Suc i"
      using Suc.hyps(2) by simp
    have IH: "fst (fill body (of_nat m) (Suc i) (arr[i := v]) s') =
      (case results_in_order (map r [Suc i..<m]) of
         Inl e \<Rightarrow> Inl e
       | Inr ws \<Rightarrow> Inr (Arr (take (Suc i) (arr[i := v]) @ ws)))"
      using Suc.hyps(1)[OF k I'] Suc.prems(2) lt by simp
    have tk: "take (Suc i) (arr[i := v]) = take i arr @ [v]"
      using lt Suc.prems(2) by (simp add: take_Suc_conv_app_nth)
    have ri: "r i = Inr v"
      using x Inr by simp
    show ?thesis
      using lt b IH Inr
      by (simp add: fill.simps[of body _ i] upt tk ri split: sum.splits)
  qed
qed

lemma fill_fails:
  assumes "\<And>s'. \<exists>e. fst (body j s') = Inl e"
  shows "i \<le> j \<Longrightarrow> j < m \<Longrightarrow> \<exists>e. fst (fill body (of_nat m) i arr s) = Inl e"
proof (induction "j - i" arbitrary: i arr s)
  case 0
  then have "i = j" by simp
  then show ?case
    using assms[of s] 0 by (cases "body j s") (auto simp: fill.simps[of body _ j])
next
  case (Suc k)
  then have lt: "i < j" "i < m" by simp_all
  obtain x s' where b: "body i s = (x, s')"
    by (cases "body i s")
  show ?case
  proof (cases x)
    case (Inl e)
    then show ?thesis
      using lt b by (simp add: fill.simps[of body _ i])
  next
    case (Inr v)
    have k: "k = j - Suc i"
      using Suc.hyps(2) by simp
    have "\<exists>e. fst (fill body (of_nat m) (Suc i) (arr[i := v]) s') = Inl e"
      by (rule Suc.hyps(1)[OF k]) (use lt Suc.prems in simp_all)
    then show ?thesis
      using lt b Inr by (simp add: fill.simps[of body _ i])
  qed
qed

lemma fill_Inr:
  assumes "\<And>j s' w. fst (body j s') = Inr w \<Longrightarrow> P w"
  shows "fst (fill body (of_nat m) i arr s) = Inr v \<Longrightarrow> length arr = m \<Longrightarrow> i \<le> m \<Longrightarrow>
    \<exists>vs. v = Arr vs \<and> length vs = m \<and> (\<forall>j<i. vs ! j = arr ! j)
       \<and> (\<forall>j. i \<le> j \<and> j < m \<longrightarrow> P (vs ! j))"
proof (induction "m - i" arbitrary: i arr s)
  case 0
  then show ?case
    by (auto simp: fill.simps[of body _ i])
next
  case (Suc k)
  then have lt: "i < m" by simp
  obtain x s' where b: "body i s = (x, s')"
    by (cases "body i s")
  show ?case
  proof (cases x)
    case (Inl e)
    then show ?thesis
      using lt b Suc.prems(1) by (simp add: fill.simps[of body _ i])
  next
    case (Inr w)
    have Pw: "P w"
      using assms[of i s w] b Inr by simp
    have k: "k = m - Suc i"
      using Suc.hyps(2) by simp
    have f: "fst (fill body (of_nat m) (Suc i) (arr[i := w]) s') = Inr v"
      using lt b Inr Suc.prems(1) by (simp add: fill.simps[of body _ i])
    have "\<exists>vs. v = Arr vs \<and> length vs = m \<and> (\<forall>j<Suc i. vs ! j = (arr[i := w]) ! j)
       \<and> (\<forall>j. Suc i \<le> j \<and> j < m \<longrightarrow> P (vs ! j))"
      by (rule Suc.hyps(1)[OF k f]) (use Suc.prems(2) lt in simp_all)
    then obtain vs where vs: "v = Arr vs" "length vs = m"
      "\<forall>j<Suc i. vs ! j = (arr[i := w]) ! j" "\<forall>j. Suc i \<le> j \<and> j < m \<longrightarrow> P (vs ! j)"
      by blast
    have "vs ! i = w"
      using vs(3) lt Suc.prems(2) by simp
    moreover have "\<forall>j<i. vs ! j = arr ! j"
      using vs(3) by (metis less_Suc_eq nat_neq_iff nth_list_update_neq)
    ultimately have "\<forall>j. i \<le> j \<and> j < m \<longrightarrow> P (vs ! j)"
      using vs(4) Pw by (metis Suc_leI le_neq_implies_less)
    then show ?thesis
      using vs(1,2) \<open>\<forall>j<i. vs ! j = arr ! j\<close> by simp
  qed
qed

subsection \<open>The dispatcher\<close>

lemma quantileSeq_bool:
  "isCollection S \<Longrightarrow> quantileSeq D [S, probOrN, Bool b] s = by_probOrN D S probOrN b s"
  by (cases b) (simp_all add: quantileSeq_def)

lemma quantileSeq_two_arguments:
  "quantileSeq D [data, probOrN] s = quantileSeq D [data, probOrN, Bool False] s"
  by (simp add: quantileSeq_def)

lemma single_num:
  "isCollection S \<Longrightarrow> 0 \<le> p \<Longrightarrow> p \<le> 1 \<Longrightarrow>
     quantileSeq D [S, Num p, Bool b] s = priv_quantileSeq D S (Num p) b s"
  by (simp add: quantileSeq_def by_probOrN_def)

lemma single_big:
  "isCollection S \<Longrightarrow> 0 \<le> p \<Longrightarrow> p \<le> 1 \<Longrightarrow>
     quantileSeq D [S, Big p, Bool b] s = wrapped_quantileSeq D S (Big p) b s"
  by (simp add: quantileSeq_def by_probOrN_def)

lemma list_body_fst:
  "i < length ps \<Longrightarrow>
     fst (list_body D S (Arr ps) b i s) = list_entry D (flatten_list (elems s S)) b (ps ! i)"
  by (cases "ps ! i") (auto simp: list_body_def list_entry_def elem_at_def priv_fst)

lemma list_body_invalid:
  assumes "j < length ps" and "\<not> valid_prob (ps ! j)"
  shows "fst (list_body D S (Arr ps) b j s') = Inl (prob_error (ps ! j))"
  using assms by (cases "ps ! j") (auto simp: list_body_def elem_at_def)

lemma list_form_aux:
  assumes "isCollection S" and "allocated s S"
  shows "fst (quantileSeq D [S, Arr ps, Bool b] s) =
           as_array (results_in_order (map (list_entry D (flatten_list (elems s S)) b) ps))"
proof -
  let ?body = "list_body D S (Arr ps) b"
  let ?r = "\<lambda>j. list_entry D (flatten_list (elems s S)) b (ps ! j)"
  have inv: "grows s (snd (?body j s'))" if "grows s s'" for j s'
    using that list_body_grows[of s' D S "Arr ps" b j] by (rule grows_trans)
  have res: "fst (?body j s') = ?r j" if "j < length ps" "grows s s'" for j s'
    using that assms(2) by (simp add: list_body_fst grows_elems)
  have "fst (fill ?body (of_nat (length ps)) 0 (replicate (length ps) Undefined) s) =
      (case results_in_order (map ?r [0..<length ps]) of
         Inl e \<Rightarrow> Inl e
       | Inr ws \<Rightarrow> Inr (Arr (take 0 (replicate (length ps) Undefined) @ ws)))"
    by (rule fill_collect[where I = "grows s" and body = ?body and r = ?r, OF inv res grows_refl])
      simp_all
  moreover have "map ?r [0..<length ps] = map (list_entry D (flatten_list (elems s S)) b) ps"
    by (rule nth_equalityI) simp_all
  ultimately show ?thesis
    using assms(1) by (simp add: quantileSeq_bool by_probOrN_def as_array_collect)
qed

lemma count_form_aux:
  assumes "isCollection S" and "allocated s S" and "1 < n" and "n \<le> 4294967295"
    and "isInteger D (Num (of_nat n))"
  shows "fst (quantileSeq D [S, Num (of_nat n), Bool b] s) =
           as_array (results_in_order
             (map (\<lambda>i. fst (quantileSeq D [S, Num (of_nat i / (of_nat n + 1)), Bool b] s))
                [1..<Suc n]))"
proof -
  let ?body = "\<lambda>i. priv_quantileSeq D S (Num (of_nat (Suc i) / (of_nat n + 1))) b"
  let ?q = "\<lambda>i. fst (quantileSeq D [S, Num (of_nat i / (of_nat n + 1)), Bool b] s)"
  let ?r = "\<lambda>j. ?q (Suc j)"
  have inv: "grows s (snd (?body j s'))" if "grows s s'" for j s'
    using that priv_grows by (rule grows_trans)
  have single: "?q i = fst (priv_quantileSeq D S (Num (of_nat i / (of_nat n + 1))) b s)"
    if "i \<le> n" for i
  proof -
    have "(of_nat i :: rat) \<le> of_nat n + 1"
      using that by (simp add: add_increasing2)
    then have "(0::rat) \<le> of_nat i / (of_nat n + 1)" "(of_nat i :: rat) / (of_nat n + 1) \<le> 1"
      by (simp_all add: divide_le_eq_1)
    then show ?thesis
      using assms(1) by (simp add: single_num)
  qed
  have res: "fst (?body j s') = ?r j" if "j < n" "grows s s'" for j s'
    using that assms(2) single[of "Suc j"] by (simp add: priv_fst_grows)
  have arr: "new_Array (of_nat n) = Inr (replicate n Undefined)"
    using assms(4) by (simp add: new_Array_def is_int_def)
  have "fst (fill ?body (of_nat n) 0 (replicate n Undefined) s) =
      (case results_in_order (map ?r [0..<n]) of
         Inl e \<Rightarrow> Inl e
       | Inr ws \<Rightarrow> Inr (Arr (take 0 (replicate n Undefined) @ ws)))"
    by (rule fill_collect[where I = "grows s" and body = ?body and r = ?r, OF inv res grows_refl])
      simp_all
  moreover have "map ?r [0..<n] = map ?q [1..<Suc n]"
    by (rule nth_equalityI) (simp_all del: upt_Suc of_nat_Suc)
  moreover have "fst (quantileSeq D [S, Num (of_nat n), Bool b] s) =
      fst (fill ?body (of_nat n) 0 (replicate n Undefined) s)"
    using assms(1,3,5) arr by (simp add: quantileSeq_bool by_probOrN_def)
  ultimately show ?thesis
    by (simp only: as_array_collect)
qed

subsection \<open>Partitions and order statistics\<close>

text \<open>
  In a sequence partitioned at \<open>k\<close>, position \<open>k\<close> holds the \<open>k\<close>-th smallest magnitude,
  and a maximum of the positions before \<open>k\<close> holds the one before.
\<close>

lemma sort_map_mset: "mset ys = mset xs \<Longrightarrow> sort (map key ys) = sort (map key xs)"
proof (rule properties_for_sort)
  assume "mset ys = mset xs"
  then have "mset (map key xs) = mset (map key ys)"
    by simp
  then show "mset (sort (map key xs)) = mset (map key ys)"
    by simp
qed simp

lemma sort_split:
  fixes A B :: "rat list"
  assumes "\<forall>a\<in>set A. a \<le> p" and "\<forall>b\<in>set B. p \<le> b"
  shows "sort (A @ p # B) = sort A @ p # sort B"
proof (rule properties_for_sort)
  show "mset (sort A @ p # sort B) = mset (A @ p # B)"
    by simp
  show "sorted (sort A @ p # sort B)"
    using assms by (auto simp: sorted_append intro: order_trans)
qed

lemma partitioned_sort:
  assumes "partitioned_at key ys k"
  shows "sort (map key ys) =
    sort (map key (take k ys)) @ key (ys ! k) # sort (map key (drop (Suc k) ys))"
proof -
  have k: "k < length ys"
    using assms by (simp add: partitioned_at_def)
  have "map key ys = map key (take k ys) @ key (ys ! k) # map key (drop (Suc k) ys)"
    using id_take_nth_drop[OF k] by (metis list.simps(9) map_append)
  moreover have "sort (map key (take k ys) @ key (ys ! k) # map key (drop (Suc k) ys)) =
      sort (map key (take k ys)) @ key (ys ! k) # sort (map key (drop (Suc k) ys))"
    using assms by (intro sort_split) (auto simp: partitioned_at_def)
  ultimately show ?thesis
    by simp
qed

lemma partitioned_nth:
  assumes "partitioned_at key ys k"
  shows "sort (map key ys) ! k = key (ys ! k)"
proof -
  have k: "k < length ys"
    using assms by (simp add: partitioned_at_def)
  then have "length (sort (map key (take k ys))) = k"
    by simp
  then show ?thesis
    unfolding partitioned_sort[OF assms] by (metis nth_append_length)
qed

lemma sorted_last_max:
  fixes zs :: "rat list"
  assumes "sorted zs" and "z \<in> set zs"
  shows "z \<le> zs ! (length zs - 1)"
proof -
  obtain i where i: "i < length zs" "zs ! i = z"
    using assms(2) by (auto simp: in_set_conv_nth)
  then have "zs ! i \<le> zs ! (length zs - 1)"
    using assms(1) by (intro sorted_nth_mono) auto
  then show ?thesis
    using i by simp
qed


lemma sort_nth_0:
  fixes zs :: "rat list"
  assumes "zs \<noteq> []"
  shows "sort zs ! 0 = Min (set zs)"
proof -
  have "sort zs \<noteq> []"
    using assms by (metis set_empty set_sort)
  then obtain a as where s: "sort zs = a # as"
    by (cases "sort zs") auto
  have "sorted (a # as)" and "set (a # as) = set zs"
    using s by (metis sorted_sort, metis set_sort)
  then have "Min (set zs) = a"
    by (intro Min_eqI) auto
  then show ?thesis
    using s by simp
qed

lemma sort_nth_last:
  fixes zs :: "rat list"
  assumes "zs \<noteq> []"
  shows "sort zs ! (length zs - 1) = Max (set zs)"
proof -
  have n: "length (sort zs) = length zs" "0 < length zs"
    using assms by simp_all
  have "Max (set zs) = sort zs ! (length zs - 1)"
  proof (rule Max_eqI)
    show "finite (set zs)" by simp
    show "y \<le> sort zs ! (length zs - 1)" if "y \<in> set zs" for y
      using sorted_last_max[of "sort zs" y] that by simp
    have "sort zs ! (length zs - 1) \<in> set (sort zs)"
      using n by (intro nth_mem) simp
    then show "sort zs ! (length zs - 1) \<in> set zs"
      by simp
  qed
  then show ?thesis
    by simp
qed



lemma exact_unsorted:
  assumes sel: "selects D key flat k" and sup: "\<forall>x\<in>set flat. supported x"
  shows "\<exists>v. exact_value D False flat (int k) = Inr v \<and> v \<in> set flat
      \<and> key v = sort (map key flat) ! k"
proof -
  obtain v ys where ps: "partitionSelect D flat (int k) = (Inr v, ys)"
    and ms: "mset ys = mset flat" and r: "v = ys ! k" and pt: "partitioned_at key ys k"
    using sel by (auto simp: selects_def split: prod.splits sum.splits)
  have st: "set ys = set flat"
    using ms by (rule mset_eq_setD)
  have k: "k < length ys"
    using pt by (simp add: partitioned_at_def)
  have vin: "v \<in> set flat"
    using r k st by (metis nth_mem)
  then have "validate D v = Inr v"
    using sup by (simp add: validate_supported)
  then have "exact_value D False flat (int k) = Inr v"
    using ps by (simp add: exact_value_def)
  moreover have "key v = sort (map key flat) ! k"
    using partitioned_nth[OF pt] sort_map_mset[OF ms, of key] r by simp
  ultimately show ?thesis
    using vin by blast
qed

section \<open>Order statistics\<close>

text \<open>
  C2. Let the collection flatten to a non-empty sequence of supported values, let
  \<open>p\<close> be a probability with \<open>p * (len - 1)\<close> equal to the integer \<open>k\<close>, and let the
  selection primitive meet its contract at rank \<open>k\<close>. Then the unsorted call returns an
  element of the flat sequence that is its \<open>k\<close>-th smallest (by magnitude, counting
  from 0), for a probability given as a number and, in the scalar calculator, as a
  BigNumber; this is the same for every reordering of the sequence; for \<open>p = 0\<close> it is
  a minimum and for \<open>p = 1\<close> a maximum.
\<close>

theorem exact_rank_quantile:
  assumes "isCollection S" and "flat = flatten_list (elems s S)" and "flat \<noteq> []"
    and "0 \<le> p" and "p \<le> 1" and "p * of_nat (length flat - 1) = of_nat k"
    and "\<forall>x\<in>set flat. supported x" and "selects D key flat k"
  shows "\<exists>v. fst (quantileSeq D [S, Num p, Bool False] s) = Inr v
        \<and> fst (priv_quantileSeq D S (Big p) False s) = Inr v
        \<and> v \<in> set flat \<and> key v = sort (map key flat) ! k
        \<and> (\<forall>flat'. mset flat' = mset flat \<longrightarrow> sort (map key flat') ! k = key v)
        \<and> (p = 0 \<longrightarrow> key v = Min (key ` set flat))
        \<and> (p = 1 \<longrightarrow> key v = Max (key ` set flat))"
proof -
  let ?idx = "p * of_nat (length flat - 1)"
  have int: "is_int ?idx" and fl: "\<lfloor>?idx\<rfloor> = int k"
    using assms(6) by (simp_all add: is_int_def)
  obtain v where v: "exact_value D False flat (int k) = Inr v" "v \<in> set flat"
      "key v = sort (map key flat) ! k"
    using exact_unsorted[OF assms(8,7)] by blast
  have q: "quantile_value D flat prob False = Inr v" if "prob = Num p \<or> prob = Big p" for prob
    using quantile_value_exact[OF that assms(3) int, of D False] v(1) fl by simp
  have 1: "fst (quantileSeq D [S, Num p, Bool False] s) = Inr v"
    using q[of "Num p"] assms(1,2,4,5) by (simp add: single_num priv_fst)
  have 2: "fst (priv_quantileSeq D S (Big p) False s) = Inr v"
    using q[of "Big p"] assms(2) by (simp add: priv_fst)
  have 3: "sort (map key flat') ! k = key v" if "mset flat' = mset flat" for flat'
    using sort_map_mset[OF that, of key] v(3) by simp
  have ne: "map key flat \<noteq> []"
    using assms(3) by simp
  have 4: "key v = Min (key ` set flat)" if "p = 0"
  proof -
    have "k = 0"
      using assms(6) that by simp
    then show ?thesis
      using sort_nth_0[OF ne] v(3) by simp
  qed
  have 5: "key v = Max (key ` set flat)" if "p = 1"
  proof -
    have "k = length flat - 1"
      using assms(6) that by simp
    then show ?thesis
      using sort_nth_last[OF ne] v(3) by simp
  qed
  show ?thesis
    using 1 2 3 4 5 v(2,3) by blast
qed

theorem exact_rank_quantile_witness:
  "selects std magnitude [Num 3, Num (- 1), Num 5, Num 7] 1
   \<and> fst (quantileSeq std [Ref 0, Num (1 / 3), Bool False]
        (store0 [Num 3, Num (- 1), Num 5, Num 7])) = Inr (Num 3)
   \<and> magnitude (Num 3) = sort (map magnitude [Num 3, Num (- 1), Num 5, Num 7]) ! 1"
proof -
  let ?flat = "[Num 3, Num (- 1), Num 5, Num 7]"
  let ?s = "store0 ?flat"
  have h1: "isCollection (Ref 0)" by simp
  have h2: "?flat = flatten_list (elems ?s (Ref 0))"
    by (simp add: store0_def flatten_list_def)
  have h3: "?flat \<noteq> []" by simp
  have h4: "(0::rat) \<le> 1 / 3" and h5: "(1::rat) / 3 \<le> 1" by simp_all
  have h6: "(1 / 3) * of_nat (length ?flat - 1) = (of_nat 1 :: rat)" by simp
  have h7: "\<forall>x\<in>set ?flat. supported x" by simp
  have h8: "selects std magnitude ?flat 1"
    by (simp add: selects_def std_def std_partitionSelect_def partitioned_at_def)
  obtain v where v: "fst (quantileSeq std [Ref 0, Num (1 / 3), Bool False] ?s) = Inr v"
      "magnitude v = sort (map magnitude ?flat) ! 1"
    using exact_rank_quantile [OF h1 h2 h3 h4 h5 h6 h7 h8] by blast
  have q: "fst (quantileSeq std [Ref 0, Num (1 / 3), Bool False] ?s) = Inr (Num 3)"
    by code_simp
  have "magnitude (Num 3) = sort (map magnitude ?flat) ! 1"
    using v q by simp
  then show ?thesis
    using h8 q by simp
qed



section \<open>The count form and the list form\<close>

text \<open>
  C3, amended. For an integer count \<open>N\<close> with \<open>1 < N \<le> 2^32 - 1\<close>, the call returns
  the results of the single-probability calls at \<open>1/(N+1), ..., N/(N+1)\<close>, in this order:
  it fails with the first error among them if one fails, and otherwise returns exactly \<open>N\<close>
  results, the \<open>i\<close>-th being the result at \<open>(i+1)/(N+1)\<close> (counting from 0).
\<close>

theorem count_form:
  assumes "isCollection S" and "allocated s S" and "1 < n" and "n \<le> 4294967295"
    and "isInteger D (Num (of_nat n))"
  shows "fst (quantileSeq D [S, Num (of_nat n), Bool b] s) =
           as_array (results_in_order
             (map (\<lambda>i. fst (quantileSeq D [S, Num (of_nat i / (of_nat n + 1)), Bool b] s))
                [1..<Suc n]))
       \<and> (\<forall>vs. fst (quantileSeq D [S, Num (of_nat n), Bool b] s) = Inr (Arr vs) \<longrightarrow>
             length vs = n \<and>
             (\<forall>i<n. fst (quantileSeq D [S, Num (of_nat (Suc i) / (of_nat n + 1)), Bool b] s) =
                Inr (vs ! i)))"
proof -
  let ?q = "\<lambda>i. fst (quantileSeq D [S, Num (of_nat i / (of_nat n + 1)), Bool b] s)"
  have eq: "fst (quantileSeq D [S, Num (of_nat n), Bool b] s) =
      as_array (results_in_order (map ?q [1..<Suc n]))"
    by (rule count_form_aux[OF assms])
  have "length vs = n \<and> (\<forall>i<n. ?q (Suc i) = Inr (vs ! i))"
    if "fst (quantileSeq D [S, Num (of_nat n), Bool b] s) = Inr (Arr vs)" for vs
  proof -
    have "results_in_order (map ?q [1..<Suc n]) = Inr vs"
      using that eq by (simp add: as_array_Inr)
    from results_in_order_Inr[OF this] show ?thesis
      by (simp del: upt_Suc of_nat_Suc)
  qed
  then show ?thesis
    using eq by blast
qed

theorem count_form_witness:
  "fst (quantileSeq std [Ref 0, Num (of_nat 2), Bool False]
     (store0 [Num 3, Num (- 1), Num 5, Num 7])) = Inr (Arr [Num 3, Num 5])
   \<and> fst (quantileSeq std [Ref 0, Num (of_nat 1 / (of_nat 2 + 1)), Bool False]
     (store0 [Num 3, Num (- 1), Num 5, Num 7])) = Inr (Num 3)
   \<and> fst (quantileSeq std [Ref 0, Num (of_nat 2 / (of_nat 2 + 1)), Bool False]
     (store0 [Num 3, Num (- 1), Num 5, Num 7])) = Inr (Num 5)"
proof -
  let ?s = "store0 [Num 3, Num (- 1), Num 5, Num 7]"
  have h1: "isCollection (Ref 0)" by simp
  have h2: "allocated ?s (Ref 0)" by (simp add: store0_def)
  have h3: "1 < (2::nat)" and h4: "(2::nat) \<le> 4294967295" by simp_all
  have h5: "isInteger std (Num (of_nat 2))" by code_simp
  have q1: "fst (quantileSeq std [Ref 0, Num (of_nat 1 / (of_nat 2 + 1)), Bool False] ?s) =
      Inr (Num 3)"
    by code_simp
  have q2: "fst (quantileSeq std [Ref 0, Num (of_nat 2 / (of_nat 2 + 1)), Bool False] ?s) =
      Inr (Num 5)"
    by code_simp
  have up: "[1..<Suc 2] = [1, 2]"
    by code_simp
  from count_form [OF h1 h2 h3 h4 h5, of False]
  have "fst (quantileSeq std [Ref 0, Num (of_nat 2), Bool False] ?s) =
      as_array (results_in_order
        (map (\<lambda>i. fst (quantileSeq std [Ref 0, Num (of_nat i / (of_nat 2 + 1)), Bool False] ?s))
           [1..<Suc 2]))"
    by (rule conjunct1)
  then have "fst (quantileSeq std [Ref 0, Num (of_nat 2), Bool False] ?s) = Inr (Arr [Num 3, Num 5])"
    unfolding up using q1 q2 by (simp add: as_array_def)
  then show ?thesis
    using q1 q2 by simp
qed

text \<open>
  C3 as stated, for every integer \<open>N > 1\<close>, fails at \<open>N = 2^32\<close>: the result array
  cannot be created.
\<close>

theorem count_form_counterexample:
  "fst (quantileSeq std [Ref 0, Num 4294967296, Bool False]
     (store0 [Num 3, Num (- 1), Num 5, Num 7])) = Inl (RangeError ''Invalid array length'')"
  by code_simp

text \<open>
  C4. The list form does not return what the calls with the single probabilities
  return when a probability is a BigNumber: line 161 stores the result of the scalar
  calculator as it is, where lines 117 and 136 wrap it by the BigNumber constructor. On
  the data [3, -1, 5, 7] the list of the BigNumber probabilities 0 and 0.5 gives a native
  number and a BigNumber, where the two single calls give BigNumbers; on data of Units
  the list form returns the Unit, where the single call fails in the constructor.
\<close>

theorem list_form_unwrapped:
  "fst (quantileSeq std [Ref 0, Arr [Big 0, Big (1 / 2)], Bool False]
     (store0 [Num 3, Num (- 1), Num 5, Num 7])) = Inr (Arr [Num (- 1), Big 4])
   \<and> fst (quantileSeq std [Ref 0, Big 0, Bool False]
     (store0 [Num 3, Num (- 1), Num 5, Num 7])) = Inr (Big (- 1))
   \<and> fst (quantileSeq std [Ref 0, Big (1 / 2), Bool False]
     (store0 [Num 3, Num (- 1), Num 5, Num 7])) = Inr (Big 4)
   \<and> fst (quantileSeq std [Ref 0, Arr [Big 0], Bool False]
     (store0 [Unit 2 ''cm'', Unit 1 ''cm''])) = Inr (Arr [Unit 1 ''cm''])
   \<and> fst (quantileSeq std [Ref 0, Big 0, Bool False]
     (store0 [Unit 2 ''cm'', Unit 1 ''cm''])) = Inl (Error ''[DecimalError] Invalid argument'')"
  by code_simp

text \<open>
  C5, amended. A call with a list of probabilities of which one is invalid fails as a
  whole: no partial result is returned. The elements are checked one at a time, each just
  before its own quantile is computed: when \<open>p\<close> is the first invalid element, the
  quantiles of the elements before it are computed first, the call fails with the first
  error among these computations if there is one, and with the error for \<open>p\<close> otherwise.
\<close>

theorem list_form_invalid:
  "((\<exists>p\<in>set ps. \<not> valid_prob p) \<longrightarrow>
       (\<exists>e. fst (quantileSeq D [S, Arr ps, sortedArg] s) = Inl e))
   \<and> (isCollection S \<and> allocated s S \<and> (\<forall>q\<in>set qs. valid_prob q) \<and> \<not> valid_prob p \<longrightarrow>
       fst (quantileSeq D [S, Arr (qs @ p # rest), Bool b] s) =
         (case results_in_order (map (\<lambda>q. fst (priv_quantileSeq D S q b s)) qs) of
            Inl e \<Rightarrow> Inl e
          | Inr _ \<Rightarrow> Inl (prob_error p)))"
proof -
  have A: "\<exists>e. fst (quantileSeq D [S, Arr ps, sortedArg] s) = Inl e"
    if bad: "\<exists>p\<in>set ps. \<not> valid_prob p"
  proof -
    obtain j where j: "j < length ps" "\<not> valid_prob (ps ! j)"
      using bad by (auto simp: in_set_conv_nth)
    have f: "\<exists>e. fst (fill (list_body D S (Arr ps) c) (of_nat (length ps)) 0
        (replicate (length ps) Undefined) s) = Inl e" for c
      by (rule fill_fails[where j = j]) (use j in \<open>simp_all add: list_body_invalid\<close>)
    show ?thesis
    proof (cases "isCollection S")
      case False
      then show ?thesis
        by (simp add: quantileSeq_def)
    next
      case True
      then show ?thesis
        using f by (cases sortedArg) (auto simp: quantileSeq_def by_probOrN_def)
    qed
  qed
  have B: "fst (quantileSeq D [S, Arr (qs @ p # rest), Bool b] s) =
         (case results_in_order (map (\<lambda>q. fst (priv_quantileSeq D S q b s)) qs) of
            Inl e \<Rightarrow> Inl e
          | Inr _ \<Rightarrow> Inl (prob_error p))"
    if h: "isCollection S" "allocated s S" "\<forall>q\<in>set qs. valid_prob q" "\<not> valid_prob p"
  proof -
    let ?f = "list_entry D (flatten_list (elems s S)) b"
    have m: "map ?f qs = map (\<lambda>q. fst (priv_quantileSeq D S q b s)) qs"
      using h(3) by (simp add: list_entry_def priv_fst)
    have "map ?f (qs @ p # rest) = map ?f qs @ Inl (prob_error p) # map ?f rest"
      using h(4) by (simp add: list_entry_def)
    then have "fst (quantileSeq D [S, Arr (qs @ p # rest), Bool b] s) =
        as_array (results_in_order (map ?f qs @ Inl (prob_error p) # map ?f rest))"
      using list_form_aux[OF h(1,2), of D "qs @ p # rest" b] by (simp only:)
    then show ?thesis
      unfolding results_in_order_append_Inl m
      by (simp add: as_array_def split: sum.splits)
  qed
  show ?thesis
    using A B by blast
qed

theorem list_form_invalid_witness:
  "(\<exists>p\<in>set [Num (1 / 2), Num (3 / 2)]. \<not> valid_prob p)
   \<and> fst (quantileSeq std [Ref 0, Arr [Num (1 / 2), Num (3 / 2)], Bool False]
        (store0 [Num 3, Num (- 1)])) =
      Inl (Error ''Probability must be between 0 and 1, inclusive'')"
proof -
  let ?s = "store0 [Num 3, Num (- 1)]"
  have h0: "\<exists>p\<in>set [Num (1 / 2), Num (3 / 2)]. \<not> valid_prob p"
    by simp
  have h: "isCollection (Ref 0) \<and> allocated ?s (Ref 0) \<and> (\<forall>q\<in>set [Num (1 / 2)]. valid_prob q)
      \<and> \<not> valid_prob (Num (3 / 2))"
    by (simp add: store0_def)
  have q: "fst (priv_quantileSeq std (Ref 0) (Num (1 / 2)) False ?s) = Inr (Num 1)"
    by code_simp
  have "\<exists>e. fst (quantileSeq std [Ref 0, Arr [Num (1 / 2), Num (3 / 2)], Bool False] ?s) = Inl e"
    using list_form_invalid [of "[Num (1 / 2), Num (3 / 2)]" std "Ref 0" "Bool False" ?s] h0
    by blast
  moreover have "fst (quantileSeq std [Ref 0, Arr ([Num (1 / 2)] @ Num (3 / 2) # []), Bool False] ?s) =
      Inl (prob_error (Num (3 / 2)))"
    using list_form_invalid [of "[]" std "Ref 0" "Bool False" ?s "[Num (1 / 2)]" "Num (3 / 2)" "[]" False]
      h q by simp
  ultimately show ?thesis
    using h0 by simp
qed

text \<open>
  C5 as stated, with the whole list validated before any quantile is computed, fails at
  the list [0.5, 1.5]: on empty data the call ends with the empty-input error of the
  quantile at 0.5, and on the data [3, -1] the store has changed when the call fails,
  the flat copy made for the quantile at 0.5 being there, reordered.
\<close>

theorem list_form_invalid_counterexample:
  "fst (quantileSeq std [Arr [], Arr [Num (1 / 2), Num (3 / 2)], Bool False] (store0 [])) =
      Inl (Error ''Cannot calculate quantile of an empty sequence'')
   \<and> snd (quantileSeq std [Ref 0, Arr [Num (1 / 2), Num (3 / 2)], Bool False]
        (store0 [Num 3, Num (- 1)])) \<noteq> store0 [Num 3, Num (- 1)]
   \<and> arrays (snd (quantileSeq std [Ref 0, Arr [Num (1 / 2), Num (3 / 2)], Bool False]
        (store0 [Num 3, Num (- 1)]))) 1 = [Num (- 1), Num 3]"
proof -
  have a: "fst (quantileSeq std [Arr [], Arr [Num (1 / 2), Num (3 / 2)], Bool False] (store0 [])) =
      Inl (Error ''Cannot calculate quantile of an empty sequence'')"
    by code_simp
  have b: "arrays (snd (quantileSeq std [Ref 0, Arr [Num (1 / 2), Num (3 / 2)], Bool False]
        (store0 [Num 3, Num (- 1)]))) 1 = [Num (- 1), Num 3]"
    by code_simp
  have "arrays (store0 [Num 3, Num (- 1)]) 1 = []"
    by (simp add: store0_def)
  with b have "snd (quantileSeq std [Ref 0, Arr [Num (1 / 2), Num (3 / 2)], Bool False]
        (store0 [Num 3, Num (- 1)])) \<noteq> store0 [Num 3, Num (- 1)]"
    by auto
  with a b show ?thesis
    by simp
qed

section \<open>The caller's collection\<close>

text \<open>
  C7. A call never changes an array that was allocated before it: whatever the
  arguments and the collaborators, every address below \<open>fresh\<close> holds after the call
  what it held before. In the scalar calculator the only address written is the next free
  one, where \<^verbatim>\<open>flatten\<close> puts the flat copy; the reordering by the selection primitive
  is confined to it.
\<close>

theorem caller_collection_unchanged:
  "(a < fresh s \<longrightarrow> arrays (snd (quantileSeq D arguments s)) a = arrays s a)
   \<and> (a \<noteq> fresh s \<longrightarrow> arrays (snd (priv_quantileSeq D S prob b s)) a = arrays s a)"
proof -
  have "a \<noteq> fresh s \<Longrightarrow> arrays (snd (priv_quantileSeq D S prob b s)) a = arrays s a"
  proof -
    assume a: "a \<noteq> fresh s"
    define s1 where "s1 = snd (flatten S s)"
    have f: "flatten S s = (fresh s, s1)" and s1: "arrays s1 a = arrays s a"
      using a by (simp_all add: s1_def flatten_def)
    have step: "only_at (fresh s) s1 s' \<Longrightarrow> arrays s' a = arrays s a" for s'
      using a s1 by (auto simp: only_at_def)
    show ?thesis
      unfolding priv_quantileSeq_def f
      by (auto simp: Let_def s1 intro!: step exact_rank_only interpolate_only split: val.splits)
  qed
  then show ?thesis
    using quantileSeq_grows[of s D arguments] by (auto simp: grows_def)
qed

theorem caller_collection_unchanged_witness:
  "(0 < fresh (store0 [Num 3, Num (- 1), Num 5, Num 7]) \<and>
    arrays (snd (quantileSeq std [Ref 0, Num (1 / 2), Bool False]
      (store0 [Num 3, Num (- 1), Num 5, Num 7]))) 0 = [Num 3, Num (- 1), Num 5, Num 7])
   \<and> (0 \<noteq> fresh (store0 [Num 3, Num (- 1), Num 5, Num 7]) \<and>
    arrays (snd (priv_quantileSeq std (Ref 0) (Num (1 / 2)) False
      (store0 [Num 3, Num (- 1), Num 5, Num 7]))) 0 = [Num 3, Num (- 1), Num 5, Num 7])"
  using caller_collection_unchanged [of 0 "store0 [Num 3, Num (- 1), Num 5, Num 7]" std
      "[Ref 0, Num (1 / 2), Bool False]" "Ref 0" "Num (1 / 2)" False]
  by (simp add: store0_def)

section \<open>Errors and validation\<close>

text \<open>
  C8. On an empty collection with probability 0.5 the call fails with the empty-input
  error. On any collection, the probability -0.1 and the probability list [1.5] fail with
  domain errors, and 2.5 fails with the domain error "N must be a positive integer"
  (when the integrality test rejects 2.5). The three domain errors are raised at
  detection: the store is as it was, so no flat copy was made and no quantile computed.
\<close>

theorem quantileSeq_error_cases:
  assumes "isCollection S" and "isCollection E" and "flatten_list (elems s E) = []"
    and "\<not> isInteger D (Num (5 / 2))"
  shows "fst (quantileSeq D [E, Num (1 / 2), Bool False] s) =
           Inl (Error ''Cannot calculate quantile of an empty sequence'')
       \<and> quantileSeq D [S, Num (- 1 / 10), Bool False] s =
           (Inl (Error ''N/prob must be non-negative''), s)
       \<and> quantileSeq D [S, Arr [Num (3 / 2)], Bool False] s =
           (Inl (Error ''Probability must be between 0 and 1, inclusive''), s)
       \<and> quantileSeq D [S, Num (5 / 2), Bool False] s =
           (Inl (Error ''N must be a positive integer''), s)"
  using assms
  by (simp add: quantileSeq_def by_probOrN_def priv_quantileSeq_def flatten_def new_Array_def
      is_int_def fill.simps[of _ _ 0] list_body_def elem_at_def)

theorem quantileSeq_error_cases_witness:
  "fst (quantileSeq std [Arr [], Num (1 / 2), Bool False] (store0 [Num 3, Num (- 1)])) =
      Inl (Error ''Cannot calculate quantile of an empty sequence'')
   \<and> quantileSeq std [Ref 0, Num (- 1 / 10), Bool False] (store0 [Num 3, Num (- 1)]) =
      (Inl (Error ''N/prob must be non-negative''), store0 [Num 3, Num (- 1)])
   \<and> quantileSeq std [Ref 0, Arr [Num (3 / 2)], Bool False] (store0 [Num 3, Num (- 1)]) =
      (Inl (Error ''Probability must be between 0 and 1, inclusive''), store0 [Num 3, Num (- 1)])
   \<and> quantileSeq std [Ref 0, Num (5 / 2), Bool False] (store0 [Num 3, Num (- 1)]) =
      (Inl (Error ''N must be a positive integer''), store0 [Num 3, Num (- 1)])"
proof -
  have h1: "isCollection (Ref 0)" and h2: "isCollection (Arr [])"
    by simp_all
  have h3: "flatten_list (elems (store0 [Num 3, Num (- 1)]) (Arr [])) = []"
    by (simp add: flatten_list_def)
  have h4: "\<not> isInteger std (Num (5 / 2))"
    by code_simp
  show ?thesis
    by (rule quantileSeq_error_cases [OF h1 h2 h3 h4])
qed

text \<open>
  C9. When the second argument is a BigNumber: an integer count above \<open>2^32 - 1\<close> fails
  with a domain error, before anything is computed; and whatever the call returns is a
  BigNumber when the argument is a probability (at most 1), and a list of as many
  BigNumbers as the count says when it is a count.
\<close>

theorem bignumber_branch:
  "(isCollection S \<and> is_int n \<and> 4294967295 < n \<longrightarrow>
      quantileSeq D [S, Big n, Bool b] s =
        (Inl (Error ''N must be less than or equal to 2^32-1, as that is the maximum length of an Array''), s))
   \<and> (fst (quantileSeq D [S, Big n, Bool b] s) = Inr v \<longrightarrow>
        (if n \<le> 1 then isBigNumber v
         else \<exists>vs. v = Arr vs \<and> length vs = nat \<lfloor>n\<rfloor> \<and> (\<forall>x\<in>set vs. isBigNumber x)))"
proof -
  have A: "quantileSeq D [S, Big n, Bool b] s =
        (Inl (Error ''N must be less than or equal to 2^32-1, as that is the maximum length of an Array''), s)"
    if "isCollection S" "is_int n" "4294967295 < n"
    using that by (simp add: quantileSeq_bool by_probOrN_def)
  have B: "if n \<le> 1 then isBigNumber v
         else \<exists>vs. v = Arr vs \<and> length vs = nat \<lfloor>n\<rfloor> \<and> (\<forall>x\<in>set vs. isBigNumber x)"
    if r: "fst (quantileSeq D [S, Big n, Bool b] s) = Inr v"
  proof -
    have c: "isCollection S"
      using r by (cases "isCollection S") (simp_all add: quantileSeq_def)
    have r': "fst (by_probOrN D S (Big n) b s) = Inr v"
      using r c by (simp add: quantileSeq_bool)
    show ?thesis
    proof (cases "n \<le> 1")
      case True
      then have "fst (wrapped_quantileSeq D S (Big n) b s) = Inr v"
        using r' by (simp add: by_probOrN_def split: if_splits)
      then show ?thesis
        using True wrapped_Inr by simp
    next
      case False
      define m where "m = nat \<lfloor>n\<rfloor>"
      have n: "is_int n" "n \<le> 4294967295" "0 \<le> n"
        using r' False by (auto simp: by_probOrN_def Let_def split: if_splits)
      have mn: "of_nat m = n"
        unfolding m_def by (rule is_int_of_nat[OF n(1) n(3)])
      have arr: "new_Array n = Inr (replicate m Undefined)"
        using n by (simp add: new_Array_def m_def)
      have f: "fst (fill (\<lambda>i. wrapped_quantileSeq D S (Big (of_nat (Suc i) / (n + 1))) b)
          (of_nat m) 0 (replicate m Undefined) s) = Inr v"
        using r' False n arr by (simp add: by_probOrN_def Let_def mn)
      have "\<exists>vs. v = Arr vs \<and> length vs = m \<and> (\<forall>j<0. vs ! j = replicate m Undefined ! j)
          \<and> (\<forall>j. 0 \<le> j \<and> j < m \<longrightarrow> isBigNumber (vs ! j))"
        by (rule fill_Inr[OF _ f]) (auto dest: wrapped_Inr)
      then show ?thesis
        using False by (auto simp: m_def in_set_conv_nth)
    qed
  qed
  show ?thesis
    using A B by blast
qed

theorem bignumber_branch_witness:
  "quantileSeq std [Ref 0, Big 4294967296, Bool False] (store0 [Num 3, Num (- 1), Num 5, Num 7]) =
     (Inl (Error ''N must be less than or equal to 2^32-1, as that is the maximum length of an Array''),
      store0 [Num 3, Num (- 1), Num 5, Num 7])
   \<and> fst (quantileSeq std [Ref 0, Big (1 / 2), Bool False] (store0 [Num 3, Num (- 1), Num 5, Num 7])) =
       Inr (Big 4)
   \<and> isBigNumber (Big 4)
   \<and> fst (quantileSeq std [Ref 0, Big 2, Bool False] (store0 [Num 3, Num (- 1), Num 5, Num 7])) =
       Inr (Arr [Big 3, Big 5])
   \<and> isBigNumber (Big 3) \<and> isBigNumber (Big 5)"
proof -
  let ?s = "store0 [Num 3, Num (- 1), Num 5, Num 7]"
  have h: "isCollection (Ref 0) \<and> is_int 4294967296 \<and> (4294967295::rat) < 4294967296"
    by (simp add: is_int_def)
  have q1: "fst (quantileSeq std [Ref 0, Big (1 / 2), Bool False] ?s) = Inr (Big 4)"
    by code_simp
  have q2: "fst (quantileSeq std [Ref 0, Big 2, Bool False] ?s) = Inr (Arr [Big 3, Big 5])"
    by code_simp
  have "quantileSeq std [Ref 0, Big 4294967296, Bool False] ?s =
     (Inl (Error ''N must be less than or equal to 2^32-1, as that is the maximum length of an Array''), ?s)"
    using bignumber_branch [of "Ref 0" 4294967296 std False ?s] h by blast
  moreover have "isBigNumber (Big 4)"
    using bignumber_branch [of "Ref 0" "1 / 2" std False ?s "Big 4"] q1 by simp
  moreover have "\<forall>x\<in>set [Big 3, Big 5]. isBigNumber x"
    using bignumber_branch [of "Ref 0" 2 std False ?s "Arr [Big 3, Big 5]"] q2 by simp
  ultimately show ?thesis
    using q1 q2 by simp
qed

text \<open>
  C10. \<^verbatim>\<open>validate\<close> does not stop every value that is no number, BigNumber or Unit.
  With the conversions of the dispatcher a boolean or a numeric string at the consulted
  position passes, and since the result of \<^verbatim>\<open>validate\<close> is discarded the call returns
  that very value; a string that denotes no number ends the call with the Error of the
  conversion, not with a type error. On the sorted path, at the probability 0.5: the
  middle element of three is returned or converted in vain, and of two elements the
  boolean left endpoint reaches \<^verbatim>\<open>multiply\<close> as it is.
\<close>

theorem validate_lets_through:
  "fst (quantileSeq std [Ref 0, Num (1 / 2), Bool True]
     (store0 [Num 1, Bool True, Num 3])) = Inr (Bool True)
   \<and> fst (quantileSeq std [Ref 0, Num (1 / 2), Bool True]
     (store0 [Num 1, Str ''2'', Num 3])) = Inr (Str ''2'')
   \<and> fst (quantileSeq std [Ref 0, Num (1 / 2), Bool True]
     (store0 [Num 1, Str ''a'', Num 3])) =
       Inl (Error (''Cannot convert '' @ [CHR 0x22] @ ''a'' @ [CHR 0x22] @ '' to a number''))
   \<and> fst (quantileSeq traced [Ref 0, Num (1 / 2), Bool True]
     (store0 [Bool True, Num 3])) =
       Inr (Arr [Str ''add'', Arr [Str ''multiply'', Bool True, Num (1 / 2)],
                 Arr [Str ''multiply'', Num 3, Num (1 / 2)]])"
  by code_simp

end
